theory Spec2Isabelle
  imports Main
begin

section \<open>The chat session controller of \<^verbatim>\<open>packages/solid/src/use-chat.ts\<close>\<close>

text \<open>
  The controller \<^verbatim>\<open>useChat\<close> is embedded as explicit state passing. One record holds the
  fields of a controller instance (\<^verbatim>\<open>error\<close>, \<^verbatim>\<open>isLoading\<close>, \<^verbatim>\<open>streamData\<close>,
  \<^verbatim>\<open>messagesRef\<close>, \<^verbatim>\<open>abortController\<close>) together with the process-wide \<^verbatim>\<open>chatCache\<close>
  it is attached to. Every setter call and every call of \<^verbatim>\<open>callChatApi\<close> is also appended to
  a trace, in program order, so that statements about the order of effects and about the
  requests that are issued can be made.

  An \<^verbatim>\<open>await\<close> is atomic here: nothing else runs while a request is in flight. What
  \<^verbatim>\<open>callChatApi\<close> does during one call is a parameter of the model: the callbacks it invokes,
  in order, and the way its promise settles.

  One array is shared and rewritten in place: the array that \<^verbatim>\<open>createStore\<close> wraps in line
  237, which \<^verbatim>\<open>reconcile\<close> brings up to date after every write to the cache (lines 238 to
  240). A variable that holds an array therefore holds a reference, which is either that
  array or an array that nobody changes; message objects are values. The request metadata
  (headers, body, credentials), the trimming of the payload by \<^verbatim>\<open>sendExtraMessageFields\<close>,
  the input box with \<^verbatim>\<open>handleSubmit\<close>, and \<^verbatim>\<open>stop\<close> and \<^verbatim>\<open>setData\<close> are not part of the
  model. A request that \<^verbatim>\<open>stop\<close> aborts is a call of \<^verbatim>\<open>callChatApi\<close> that throws an
  \<^verbatim>\<open>AbortError\<close>.
\<close>

subsection \<open>Messages\<close>

type_synonym json = string

datatype role = User | Assistant | System | Tool

datatype invocationState = Call | Result

text \<open>
  Modelled from the spec: the types \<^verbatim>\<open>ToolInvocation\<close> and \<^verbatim>\<open>Message\<close> are imported from
  \<^verbatim>\<open>@ai-sdk/ui-utils\<close>; the fields are those of section 3 of the specification. The
  field \<open>result\<close> is \<open>None\<close> when the object has no key \<^verbatim>\<open>result\<close>, which is what
  \<^verbatim>\<open>'result' in toolInvocation\<close> tests.
\<close>

record toolInvocation =
  toolCallId :: string
  toolName :: string
  args :: json
  state :: invocationState
  step :: nat
  result :: "json option"

record message =
  message_id :: string
  role :: role
  content :: string
  experimental_attachments :: "json list option"
  toolInvocations :: "toolInvocation list option"

text \<open>
  Modelled from the spec: \<^verbatim>\<open>extractMaxToolInvocationStep\<close> is imported from
  \<^verbatim>\<open>@ai-sdk/ui-utils\<close>. It is the maximum step among the tool invocations, and no value
  when there are no tool invocations (section 4.3.1, step 1).
\<close>

definition extractMaxToolInvocationStep :: "toolInvocation list option \<Rightarrow> nat option" where
  "extractMaxToolInvocationStep tis =
     (case tis of
        None \<Rightarrow> None
      | Some xs \<Rightarrow> Some (fold (\<lambda>t m. max m (step t)) xs 0))"

text \<open>\<^verbatim>\<open>isAssistantMessageWithCompletedToolCalls\<close>, lines 533 to 540.\<close>

definition isAssistantMessageWithCompletedToolCalls :: "message \<Rightarrow> bool" where
  "isAssistantMessageWithCompletedToolCalls m =
     (role m = Assistant \<and>
      (case toolInvocations m of
         None \<Rightarrow> False
       | Some tis \<Rightarrow> length tis > 0 \<and> list_all (\<lambda>t. result t \<noteq> None) tis))"

text \<open>\<^verbatim>\<open>xs[xs.length - 1]\<close>: \<^verbatim>\<open>undefined\<close> on the empty array.\<close>

definition lastMessageOf :: "message list \<Rightarrow> message option" where
  "lastMessageOf xs = (if xs = [] then None else Some (last xs))"

subsection \<open>Thrown values, promises, options\<close>

record thrown =
  err_name :: string
  instanceofError :: bool

datatype jsvalue = JNull | JUndefined | JString string

datatype promise = Resolved jsvalue | Rejected thrown | Pending

text \<open>
  The options of \<^verbatim>\<open>useChat\<close> that the controller reads. An absent option is \<open>None\<close>.
  The callback \<^verbatim>\<open>onError\<close> is a function that may itself throw: it returns the value it
  throws, if any. \<open>generatedId\<close> is what the id generator returns for the chat id.
\<close>

record options =
  api :: "string option"
  opt_id :: "string option"
  generatedId :: string
  initialMessages :: "message list option"
  maxSteps :: "int option"
  keepLastMessageOnError :: "bool option"
  onError :: "(thrown \<Rightarrow> thrown option) option"

definition apiOf :: "options \<Rightarrow> string" where
  "apiOf opts = (case api opts of Some a \<Rightarrow> a | None \<Rightarrow> ''/api/chat'')"

definition chatId :: "options \<Rightarrow> string" where
  "chatId opts = (case opt_id opts of Some i \<Rightarrow> i | None \<Rightarrow> generatedId opts)"

definition chatKey :: "options \<Rightarrow> string" where
  "chatKey opts = apiOf opts @ ''|'' @ chatId opts @ ''|messages''"

subsection \<open>Arrays and the session cache\<close>

text \<open>
  A reference to an array of messages: the array wrapped by the store, whose contents are
  a field of the state, or an array that is never written after it has been built.
\<close>

datatype arrayRef = StoreArray | Array "message list"

text \<open>
  Modelled from the spec: the class \<^verbatim>\<open>ReactiveLRU\<close> of \<^verbatim>\<open>utils/reactive-lru\<close>. Section 4.1:
  \<^verbatim>\<open>get\<close> yields the entry or nothing, \<^verbatim>\<open>set\<close> replaces the entry, and the least recently
  used keys are evicted when the size bound is exceeded. The entries are kept most recent
  first; the entry that \<^verbatim>\<open>set\<close> has just written is the most recent one and stays. That a
  read also counts as a use only changes which other key is evicted later, and reads are
  lookups here.
\<close>

type_synonym cache = "(string \<times> arrayRef) list"

definition ReactiveLRU_get :: "string \<Rightarrow> cache \<Rightarrow> arrayRef option" where
  "ReactiveLRU_get k c = map_of c k"

definition ReactiveLRU_set :: "nat \<Rightarrow> string \<Rightarrow> arrayRef \<Rightarrow> cache \<Rightarrow> cache" where
  "ReactiveLRU_set bound k v c = (k, v) # take (bound - 1) (filter (\<lambda>p. fst p \<noteq> k) c)"

subsection \<open>Controller state and trace\<close>

datatype event =
    SetError "thrown option"
  | SetIsLoading bool
  | SetStreamData "json list"
  | Mutate "message list"
  | CallChatApi "message list"
  | OnError thrown

datatype abortHandle = AbortController

text \<open>
  \<open>storeArray\<close> holds the contents of the array that \<^verbatim>\<open>createStore\<close> wraps (line 237):
  the array that the memo \<^verbatim>\<open>_messages\<close> returned when the controller was constructed.
  \<open>wrapsInitialMessages\<close> says that this array is the \<^verbatim>\<open>initialMessages\<close> array of the
  options, as it is when the cache had no entry for the chat at that time.
\<close>

record chat =
  cacheMaxSize :: nat
  chatCache :: cache
  storeArray :: "message list"
  wrapsInitialMessages :: bool
  error :: "thrown option"
  isLoading :: bool
  streamData :: "json list option"
  messagesRef :: arrayRef
  abortController :: "abortHandle option"
  trace :: "event list"

text \<open>The contents of an array, as a read of it finds them.\<close>

definition deref :: "chat \<Rightarrow> arrayRef \<Rightarrow> message list" where
  "deref st a = (case a of StoreArray \<Rightarrow> storeArray st | Array xs \<Rightarrow> xs)"

text \<open>
  The memo \<^verbatim>\<open>_messages\<close>, lines 232 to 235: the array of the cache entry, else the
  \<^verbatim>\<open>initialMessages\<close> array, else a new empty array. \<open>messages_memo\<close> is the list that a
  read of that array finds.
\<close>

definition messages_memo_ref :: "options \<Rightarrow> chat \<Rightarrow> arrayRef" where
  "messages_memo_ref opts st =
     (case ReactiveLRU_get (chatKey opts) (chatCache st) of
        Some a \<Rightarrow> a
      | None \<Rightarrow>
          (case initialMessages opts of
             Some ms \<Rightarrow> if wrapsInitialMessages st then StoreArray else Array ms
           | None \<Rightarrow> Array []))"

definition messages_memo :: "options \<Rightarrow> chat \<Rightarrow> message list" where
  "messages_memo opts st = deref st (messages_memo_ref opts st)"

text \<open>
  The two effects that depend on the memo, which the reactive cache runs after every write
  to it. The effect of lines 238 to 240 reconciles the store with the memo: \<^verbatim>\<open>reconcile\<close>
  rewrites the wrapped array in place, so that it holds the messages of the memo. The
  effect of lines 253 to 255 makes the mirror \<^verbatim>\<open>messagesRef\<close> refer to the array of the
  memo.
\<close>

definition runEffects :: "options \<Rightarrow> chat \<Rightarrow> chat" where
  "runEffects opts st =
     (let memo = messages_memo_ref opts st
      in st\<lparr>storeArray := deref st memo, messagesRef := memo\<rparr>)"

text \<open>\<^verbatim>\<open>mutate\<close>, lines 242 to 244. The trace records the contents of the array written.\<close>

definition mutate :: "options \<Rightarrow> arrayRef \<Rightarrow> chat \<Rightarrow> chat" where
  "mutate opts msgs st =
     runEffects opts
       (st\<lparr>chatCache := ReactiveLRU_set (cacheMaxSize st) (chatKey opts) msgs (chatCache st),
           trace := trace st @ [Mutate (deref st msgs)]\<rparr>)"

definition setError :: "thrown option \<Rightarrow> chat \<Rightarrow> chat" where
  "setError e st = st\<lparr>error := e, trace := trace st @ [SetError e]\<rparr>"

definition setIsLoading :: "bool \<Rightarrow> chat \<Rightarrow> chat" where
  "setIsLoading b st = st\<lparr>isLoading := b, trace := trace st @ [SetIsLoading b]\<rparr>"

definition setStreamData :: "json list \<Rightarrow> chat \<Rightarrow> chat" where
  "setStreamData d st = st\<lparr>streamData := Some d, trace := trace st @ [SetStreamData d]\<rparr>"

subsection \<open>The streaming request executor\<close>

text \<open>
  One call of \<^verbatim>\<open>callChatApi\<close>, seen from the controller: the callbacks it invokes, in order,
  and how its promise settles.
\<close>

datatype callback =
    OnUpdate message "json list option" bool
  | RestoreMessagesOnFailure

datatype settled = Returned jsvalue | Threw thrown | NeverSettles

type_synonym apiRun = "callback list \<times> settled"

text \<open>The callbacks \<^verbatim>\<open>onUpdate\<close> (lines 185 to 196) and \<^verbatim>\<open>restoreMessagesOnFailure\<close>
  (lines 179 to 183) that \<^verbatim>\<open>processStreamedResponse\<close> hands to \<^verbatim>\<open>callChatApi\<close>.\<close>

fun runCallback :: "options \<Rightarrow> arrayRef \<Rightarrow> arrayRef \<Rightarrow> json list \<Rightarrow> bool \<Rightarrow>
    chat \<Rightarrow> callback \<Rightarrow> chat" where
  "runCallback opts chatRequest previousMessages existingStreamData keepLast st
      (OnUpdate msg data replaceLastMessage) =
     (let messages = deref st chatRequest;
          st1 = mutate opts
            (Array ((if replaceLastMessage
                     then take (length messages - 1) messages
                     else messages) @ [msg])) st
      in case data of
           None \<Rightarrow> st1
         | Some d \<Rightarrow> if length d \<noteq> 0 then setStreamData (existingStreamData @ d) st1 else st1)"
| "runCallback opts chatRequest previousMessages existingStreamData keepLast st
      RestoreMessagesOnFailure =
     (if \<not> keepLast then mutate opts previousMessages st else st)"

text \<open>
  \<^verbatim>\<open>processStreamedResponse\<close>, lines 114 to 203. \<open>chatRequest\<close> is the array
  \<^verbatim>\<open>chatRequest.messages\<close>; the trace records what it holds when \<^verbatim>\<open>callChatApi\<close> is called.
\<close>

definition processStreamedResponse :: "options \<Rightarrow> arrayRef \<Rightarrow> apiRun \<Rightarrow> arrayRef \<Rightarrow>
    bool \<Rightarrow> chat \<Rightarrow> chat \<times> settled" where
  "processStreamedResponse opts chatRequest run messagesRefArg keepLast st =
     (let previousMessages = messagesRefArg;
          st1 = mutate opts chatRequest st;
          existingStreamData = (case streamData st1 of Some d \<Rightarrow> d | None \<Rightarrow> []);
          st2 = st1\<lparr>trace := trace st1 @ [CallChatApi (deref st1 chatRequest)]\<rparr>
      in (foldl (runCallback opts chatRequest previousMessages existingStreamData keepLast)
            st2 (fst run),
          snd run))"

text \<open>
  Modelled from the spec: \<^verbatim>\<open>callChatApi\<close> is imported from \<^verbatim>\<open>@ai-sdk/ui-utils\<close>. Section 4.2:
  every part of the stream is handed to \<^verbatim>\<open>onUpdate\<close>; on completion the call returns; on a
  failure it invokes \<^verbatim>\<open>restoreMessagesOnFailure\<close> and signals the failure again; on an abort
  it surfaces the abort with nothing rolled back.
\<close>

datatype outcome = Completed jsvalue | Failed thrown | Aborted

definition abortError :: thrown where
  "abortError = \<lparr>err_name = ''AbortError'', instanceofError = True\<rparr>"

fun onUpdateOf :: "message \<times> json list option \<times> bool \<Rightarrow> callback" where
  "onUpdateOf (msg, data, replaceLastMessage) = OnUpdate msg data replaceLastMessage"

fun callChatApi :: "(message \<times> json list option \<times> bool) list \<Rightarrow> outcome \<Rightarrow> apiRun" where
  "callChatApi parts (Completed v) = (map onUpdateOf parts, Returned v)"
| "callChatApi parts (Failed e) = (map onUpdateOf parts @ [RestoreMessagesOnFailure], Threw e)"
| "callChatApi parts Aborted = (map onUpdateOf parts, Threw abortError)"

subsection \<open>The controller\<close>

definition maxStepsOf :: "options \<Rightarrow> int" where
  "maxStepsOf opts = (case maxSteps opts of Some n \<Rightarrow> n | None \<Rightarrow> 1)"

definition keepLastMessageOnErrorOf :: "options \<Rightarrow> bool" where
  "keepLastMessageOnErrorOf opts = (case keepLastMessageOnError opts of Some b \<Rightarrow> b | None \<Rightarrow> True)"

text \<open>
  The \<^verbatim>\<open>try\<close> statement of \<^verbatim>\<open>triggerRequest\<close>, lines 278 to 320. The second component is
  the way the function leaves from inside the statement, if it does: \<^verbatim>\<open>return null\<close> on an
  abort, a rejection when \<^verbatim>\<open>onError\<close> throws, and a promise that stays pending when
  \<^verbatim>\<open>callChatApi\<close> never settles. \<open>None\<close> means that control goes on after the statement.
\<close>

definition tryRequest :: "options \<Rightarrow> apiRun \<Rightarrow> arrayRef \<Rightarrow> chat \<Rightarrow> chat \<times> promise option" where
  "tryRequest opts run chatRequest st =
     (let st1 = setIsLoading True (setError None st);
          st2 = st1\<lparr>abortController := Some AbortController\<rparr>;
          (st3, fin) = processStreamedResponse opts chatRequest run (messagesRef st2)
                         (keepLastMessageOnErrorOf opts) st2
      in case fin of
           NeverSettles \<Rightarrow> (st3, Some Pending)
         | Returned v \<Rightarrow> (setIsLoading False (st3\<lparr>abortController := None\<rparr>), None)
         | Threw err \<Rightarrow>
             if err_name err = ''AbortError''
             then (setIsLoading False (st3\<lparr>abortController := None\<rparr>), Some (Resolved JNull))
             else (case (if instanceofError err then onError opts else None) of
                     None \<Rightarrow> (setIsLoading False (setError (Some err) st3), None)
                   | Some handler \<Rightarrow>
                       (let st4 = st3\<lparr>trace := trace st3 @ [OnError err]\<rparr>
                        in case handler err of
                             Some e \<Rightarrow> (setIsLoading False st4, Some (Rejected e))
                           | None \<Rightarrow> (setIsLoading False (setError (Some err) st4), None))))"

text \<open>The condition of the \<^verbatim>\<open>if\<close> statement of lines 327 to 343.\<close>

definition autoSubmit :: "options \<Rightarrow> nat \<Rightarrow> nat option \<Rightarrow> message list \<Rightarrow> bool" where
  "autoSubmit opts messageCount maxStep msgs =
     (case lastMessageOf msgs of
        None \<Rightarrow> False
      | Some lastMessage \<Rightarrow>
          (length msgs > messageCount \<or>
             extractMaxToolInvocationStep (toolInvocations lastMessage) \<noteq> maxStep) \<and>
          maxStepsOf opts > 1 \<and>
          isAssistantMessageWithCompletedToolCalls lastMessage \<and>
          content lastMessage = [] \<and>
          int (case extractMaxToolInvocationStep (toolInvocations lastMessage) of
                 Some s \<Rightarrow> s | None \<Rightarrow> 0) < maxStepsOf opts)"

definition lastToolInvocations :: "message list \<Rightarrow> toolInvocation list option" where
  "lastToolInvocations msgs =
     (case lastMessageOf msgs of None \<Rightarrow> None | Some m \<Rightarrow> toolInvocations m)"

text \<open>
  \<^verbatim>\<open>triggerRequest\<close>, lines 272 to 346. The list holds what the successive calls of
  \<^verbatim>\<open>callChatApi\<close> do; a call for which nothing is left never settles. The continuation
  request is made with the array \<^verbatim>\<open>messagesRef\<close> itself. The value of the awaited
  recursive call is dropped, a rejection of it rejects the caller.
\<close>

fun triggerRequest :: "options \<Rightarrow> apiRun list \<Rightarrow> arrayRef \<Rightarrow> chat \<Rightarrow> chat \<times> promise" where
  "triggerRequest opts [] chatRequest st =
     (fst (tryRequest opts ([], NeverSettles) chatRequest st), Pending)"
| "triggerRequest opts (run # runs) chatRequest st =
     (let messageCount = length (deref st (messagesRef st));
          maxStep = extractMaxToolInvocationStep (lastToolInvocations (deref st chatRequest));
          (st', exit) = tryRequest opts run chatRequest st
      in case exit of
           Some p \<Rightarrow> (st', p)
         | None \<Rightarrow>
             if autoSubmit opts messageCount maxStep (deref st' (messagesRef st'))
             then (case triggerRequest opts runs (messagesRef st') st' of
                     (st'', Resolved v) \<Rightarrow> (st'', Resolved JUndefined)
                   | (st'', Rejected e) \<Rightarrow> (st'', Rejected e)
                   | (st'', Pending) \<Rightarrow> (st'', Pending))
             else (st', Resolved JUndefined))"

text \<open>
  \<^verbatim>\<open>append\<close>, lines 348 to 369. The attachments are given as
  \<^verbatim>\<open>prepareAttachmentsForRequest\<close> returns them, \<open>freshId\<close> is what the id generator
  returns for a message without an id. \<^verbatim>\<open>concat\<close> builds a new array.
\<close>

record createMessage =
  cm_id :: "string option"
  cm_role :: role
  cm_content :: string
  cm_toolInvocations :: "toolInvocation list option"

definition append :: "options \<Rightarrow> apiRun list \<Rightarrow> string \<Rightarrow> json list \<Rightarrow> createMessage \<Rightarrow>
    chat \<Rightarrow> chat \<times> promise" where
  "append opts runs freshId attachmentsForRequest msg st =
     (let newMessage =
            \<lparr>message_id = (case cm_id msg of Some i \<Rightarrow> i | None \<Rightarrow> freshId),
             role = cm_role msg,
             content = cm_content msg,
             experimental_attachments =
               (if length attachmentsForRequest > 0 then Some attachmentsForRequest else None),
             toolInvocations = cm_toolInvocations msg\<rparr>
      in triggerRequest opts runs (Array (deref st (messagesRef st) @ [newMessage])) st)"

text \<open>
  \<^verbatim>\<open>reload\<close>, lines 371 to 391. \<^verbatim>\<open>slice\<close> builds a new array; when nothing is dropped the
  request is made with the array \<^verbatim>\<open>messagesRef\<close> itself.
\<close>

definition reload :: "options \<Rightarrow> apiRun list \<Rightarrow> chat \<Rightarrow> chat \<times> promise" where
  "reload opts runs st =
     (if length (deref st (messagesRef st)) = 0 then (st, Resolved JNull)
      else
        (let lastMessage = last (deref st (messagesRef st))
         in triggerRequest opts runs
              (if role lastMessage = Assistant
               then Array (take (length (deref st (messagesRef st)) - 1) (deref st (messagesRef st)))
               else messagesRef st) st))"

text \<open>
  \<^verbatim>\<open>setMessages\<close>, lines 400 to 409. The argument, or what the updater returns, is taken
  to be an array of its own.
\<close>

datatype messagesArg = Value "message list" | Updater "message list \<Rightarrow> message list"

definition setMessages :: "options \<Rightarrow> messagesArg \<Rightarrow> chat \<Rightarrow> chat" where
  "setMessages opts arg st =
     (let messagesArg =
            Array (case arg of Value ms \<Rightarrow> ms | Updater f \<Rightarrow> f (deref st (messagesRef st)))
      in (mutate opts messagesArg st)\<lparr>messagesRef := messagesArg\<rparr>)"

text \<open>
  \<^verbatim>\<open>addToolResult\<close>, lines 470 to 506. \<open>updatedMessages\<close> is the array built by the
  \<^verbatim>\<open>map\<close> of lines 479 to 497. On an empty list \<^verbatim>\<open>lastMessage\<close> is \<^verbatim>\<open>undefined\<close> and
  reading its \<^verbatim>\<open>role\<close> throws a \<^verbatim>\<open>TypeError\<close>. The promise of the request that is
  triggered is not awaited.
\<close>

definition updatedMessages :: "string \<Rightarrow> json \<Rightarrow> message list \<Rightarrow> message list" where
  "updatedMessages tcid res arr =
     map (\<lambda>(index, msg).
            if index = length arr - 1 \<and> role msg = Assistant \<and> toolInvocations msg \<noteq> None
            then msg\<lparr>toolInvocations :=
                   map_option
                     (map (\<lambda>toolInvocation.
                             if toolCallId toolInvocation = tcid
                             then toolInvocation\<lparr>result := Some res, state := Result\<rparr>
                             else toolInvocation))
                     (toolInvocations msg)\<rparr>
            else msg)
         (zip [0 ..< length arr] arr)"

definition typeError :: thrown where
  "typeError = \<lparr>err_name = ''TypeError'', instanceofError = True\<rparr>"

definition addToolResult :: "options \<Rightarrow> apiRun list \<Rightarrow> string \<Rightarrow> json \<Rightarrow> chat \<Rightarrow>
    chat \<times> thrown option" where
  "addToolResult opts runs tcid res st =
     (let messagesSnapshot = messages_memo opts st;
          upd = updatedMessages tcid res messagesSnapshot;
          st1 = mutate opts (Array upd) st
      in case lastMessageOf upd of
           None \<Rightarrow> (st1, Some typeError)
         | Some lastMessage \<Rightarrow>
             if isAssistantMessageWithCompletedToolCalls lastMessage
             then (fst (triggerRequest opts runs (Array upd) st1), None)
             else (st1, None))"

text \<open>The requests that were issued: the arguments of the calls of \<^verbatim>\<open>callChatApi\<close>, in order.\<close>

fun requestsIssued :: "event list \<Rightarrow> message list list" where
  "requestsIssued [] = []"
| "requestsIssued (CallChatApi ms # es) = ms # requestsIssued es"
| "requestsIssued (e # es) = requestsIssued es"

subsection \<open>Construction and example values\<close>

text \<open>
  The state of a controller right after \<^verbatim>\<open>useChat\<close> has run, lines 218 to 257, on a cache
  with the given size bound and entries. The array that the memo returns at that time, the
  one of the cache entry or else the \<^verbatim>\<open>initialMessages\<close> array or else a new empty array,
  is the array that \<^verbatim>\<open>createStore\<close> wraps, and \<^verbatim>\<open>messagesRef\<close> refers to it.
\<close>

definition useChat :: "options \<Rightarrow> nat \<Rightarrow> (string \<times> message list) list \<Rightarrow> chat" where
  "useChat opts bound c =
     \<lparr>cacheMaxSize = bound,
      chatCache = map (\<lambda>(k, ms). (k, if k = chatKey opts then StoreArray else Array ms)) c,
      storeArray =
        (case map_of c (chatKey opts) of
           Some ms \<Rightarrow> ms
         | None \<Rightarrow> (case initialMessages opts of Some ms \<Rightarrow> ms | None \<Rightarrow> [])),
      wrapsInitialMessages = (map_of c (chatKey opts) = None \<and> initialMessages opts \<noteq> None),
      error = None, isLoading = False, streamData = None, messagesRef = StoreArray,
      abortController = None, trace = []\<rparr>"

definition userMessage :: "string \<Rightarrow> string \<Rightarrow> message" where
  "userMessage i c = \<lparr>message_id = i, role = User, content = c,
     experimental_attachments = None, toolInvocations = None\<rparr>"

definition assistantMessage :: "string \<Rightarrow> string \<Rightarrow> toolInvocation list option \<Rightarrow> message" where
  "assistantMessage i c tis = \<lparr>message_id = i, role = Assistant, content = c,
     experimental_attachments = None, toolInvocations = tis\<rparr>"

definition exampleOptions :: "message list \<Rightarrow> int option \<Rightarrow> bool option \<Rightarrow> options" where
  "exampleOptions init ms keep = \<lparr>api = None, opt_id = Some ''chat'', generatedId = ''gen'',
     initialMessages = Some init, maxSteps = ms, keepLastMessageOnError = keep, onError = None\<rparr>"

definition networkError :: thrown where
  "networkError = \<lparr>err_name = ''TypeError'', instanceofError = True\<rparr>"

definition newUserMessage :: "string \<Rightarrow> createMessage" where
  "newUserMessage c = \<lparr>cm_id = None, cm_role = User, cm_content = c, cm_toolInvocations = None\<rparr>"

definition toolCall :: "string \<Rightarrow> nat \<Rightarrow> json option \<Rightarrow> toolInvocation" where
  "toolCall i k r = \<lparr>toolCallId = i, toolName = ''tool'', args = ''{}'',
     state = (if r = None then Call else Result), step = k, result = r\<rparr>"



text \<open>
  A property of traces: every call of \<^verbatim>\<open>callChatApi\<close> comes right after a write of the same
  list to the cache.
\<close>

definition publishedBeforeCall :: "event list \<Rightarrow> bool" where
  "publishedBeforeCall es =
     (\<forall>i ms. i < length es \<and> es ! i = CallChatApi ms \<longrightarrow> 0 < i \<and> es ! (i - 1) = Mutate ms)"

text \<open>
  A scripted transport. In round \<open>k\<close> it leaves an assistant message without content
  whose tool call, of step \<open>k\<close>, has its result: it appends the message in round 0 and
  replaces the last message afterwards.
\<close>

definition resolvedRound :: "nat \<Rightarrow> apiRun" where
  "resolvedRound k =
     ([OnUpdate (assistantMessage ''a1'' [] (Some [toolCall ''c'' k (Some ''ok'')])) None (0 < k)],
      Returned JUndefined)"

section \<open>Basic facts\<close>


lemma ReactiveLRU_get_set:
  "ReactiveLRU_get k (ReactiveLRU_set b k v c) = Some v"
  by (simp add: ReactiveLRU_get_def ReactiveLRU_set_def)

lemma deref_Array [simp]: "deref st (Array xs) = xs"
  by (simp add: deref_def)

lemma deref_StoreArray [simp]: "deref st StoreArray = storeArray st"
  by (simp add: deref_def)

lemma deref_cong:
  "storeArray st = storeArray st' \<Longrightarrow> deref st a = deref st' a"
  by (cases a) simp_all

lemma messages_memo_ref_cong:
  "chatCache st = chatCache st' \<Longrightarrow> wrapsInitialMessages st = wrapsInitialMessages st' \<Longrightarrow>
   messages_memo_ref opts st = messages_memo_ref opts st'"
  by (simp add: messages_memo_ref_def split: option.splits)

lemma messages_memo_cong:
  "chatCache st = chatCache st' \<Longrightarrow> wrapsInitialMessages st = wrapsInitialMessages st' \<Longrightarrow>
   storeArray st = storeArray st' \<Longrightarrow> messages_memo opts st = messages_memo opts st'"
  by (simp add: messages_memo_def messages_memo_ref_cong [of st st'] deref_cong [of st st'])

lemma mutate_fields [simp]:
  "error (mutate opts a st) = error st"
  "isLoading (mutate opts a st) = isLoading st"
  "streamData (mutate opts a st) = streamData st"
  "abortController (mutate opts a st) = abortController st"
  "cacheMaxSize (mutate opts a st) = cacheMaxSize st"
  "wrapsInitialMessages (mutate opts a st) = wrapsInitialMessages st"
  "trace (mutate opts a st) = trace st @ [Mutate (deref st a)]"
  by (simp_all add: mutate_def runEffects_def Let_def)

lemma mutate_memo [simp]:
  "messages_memo_ref opts (mutate opts a st) = a"
  "messagesRef (mutate opts a st) = a"
  "storeArray (mutate opts a st) = deref st a"
  by (simp_all add: mutate_def runEffects_def Let_def messages_memo_ref_def ReactiveLRU_get_set
      deref_cong [of "st\<lparr>chatCache := c, trace := t\<rparr>" st for c t])

lemma deref_mutate_same [simp]: "deref (mutate opts a st) a = deref st a"
  by (cases a) simp_all

lemma messages_memo_mutate [simp]: "messages_memo opts (mutate opts a st) = deref st a"
  by (simp add: messages_memo_def)

lemma messages_memo_other:
  "chatKey optsB = chatKey optsA \<Longrightarrow> messages_memo optsB (mutate optsA a st) = deref st a"
proof -
  assume k: "chatKey optsB = chatKey optsA"
  have "messages_memo_ref optsB (mutate optsA a st) = a"
    by (simp add: mutate_def runEffects_def Let_def messages_memo_ref_def ReactiveLRU_get_set k)
  then show ?thesis by (simp add: messages_memo_def)
qed

lemma requestsIssued_append [simp]:
  "requestsIssued (xs @ ys) = requestsIssued xs @ requestsIssued ys"
  by (induction xs rule: requestsIssued.induct) simp_all

lemma setters_fields [simp]:
  "error (setError e st) = e" "isLoading (setError e st) = isLoading st"
  "trace (setError e st) = trace st @ [SetError e]"
  "messagesRef (setError e st) = messagesRef st"
  "abortController (setError e st) = abortController st"
  "cacheMaxSize (setError e st) = cacheMaxSize st"
  "chatCache (setError e st) = chatCache st"
  "storeArray (setError e st) = storeArray st"
  "wrapsInitialMessages (setError e st) = wrapsInitialMessages st"
  "streamData (setError e st) = streamData st"
  "error (setIsLoading b st) = error st" "isLoading (setIsLoading b st) = b"
  "trace (setIsLoading b st) = trace st @ [SetIsLoading b]"
  "messagesRef (setIsLoading b st) = messagesRef st"
  "abortController (setIsLoading b st) = abortController st"
  "cacheMaxSize (setIsLoading b st) = cacheMaxSize st"
  "chatCache (setIsLoading b st) = chatCache st"
  "storeArray (setIsLoading b st) = storeArray st"
  "wrapsInitialMessages (setIsLoading b st) = wrapsInitialMessages st"
  "streamData (setIsLoading b st) = streamData st"
  "error (setStreamData d st) = error st" "isLoading (setStreamData d st) = isLoading st"
  "trace (setStreamData d st) = trace st @ [SetStreamData d]"
  "messagesRef (setStreamData d st) = messagesRef st"
  "abortController (setStreamData d st) = abortController st"
  "cacheMaxSize (setStreamData d st) = cacheMaxSize st"
  "chatCache (setStreamData d st) = chatCache st"
  "storeArray (setStreamData d st) = storeArray st"
  "wrapsInitialMessages (setStreamData d st) = wrapsInitialMessages st"
  "streamData (setStreamData d st) = Some d"
  by (simp_all add: setError_def setIsLoading_def setStreamData_def)

lemma deref_setters [simp]:
  "deref (setError e st) a = deref st a"
  "deref (setIsLoading b st) a = deref st a"
  "deref (setStreamData d st) a = deref st a"
  "deref (st\<lparr>trace := t\<rparr>) a = deref st a"
  "deref (st\<lparr>abortController := h\<rparr>) a = deref st a"
  by (cases a; simp)+

lemma messages_memo_ref_setters [simp]:
  "messages_memo_ref opts (setError e st) = messages_memo_ref opts st"
  "messages_memo_ref opts (setIsLoading b st) = messages_memo_ref opts st"
  "messages_memo_ref opts (setStreamData d st) = messages_memo_ref opts st"
  "messages_memo_ref opts (st\<lparr>trace := t\<rparr>) = messages_memo_ref opts st"
  "messages_memo_ref opts (st\<lparr>abortController := h\<rparr>) = messages_memo_ref opts st"
  by (simp_all add: messages_memo_ref_def split: option.splits)

lemma messages_memo_setters [simp]:
  "messages_memo opts (setError e st) = messages_memo opts st"
  "messages_memo opts (setIsLoading b st) = messages_memo opts st"
  "messages_memo opts (setStreamData d st) = messages_memo opts st"
  "messages_memo opts (st\<lparr>trace := t\<rparr>) = messages_memo opts st"
  "messages_memo opts (st\<lparr>abortController := h\<rparr>) = messages_memo opts st"
  by (simp_all add: messages_memo_def)

lemma runCallback_fields [simp]:
  "error (runCallback opts req prev ex keep st cb) = error st"
  "isLoading (runCallback opts req prev ex keep st cb) = isLoading st"
  "abortController (runCallback opts req prev ex keep st cb) = abortController st"
  "cacheMaxSize (runCallback opts req prev ex keep st cb) = cacheMaxSize st"
  by (cases cb; simp add: Let_def split: option.splits)+

lemma runCallback_requests [simp]:
  "requestsIssued (trace (runCallback opts req prev ex keep st cb)) = requestsIssued (trace st)"
  by (cases cb) (simp_all add: Let_def split: option.splits)

lemma runCallback_trace:
  "\<exists>more. trace (runCallback opts req prev ex keep st cb) = trace st @ more"
  by (cases cb) (simp_all add: Let_def split: option.splits)

lemma callbacks_fields [simp]:
  "error (foldl (runCallback opts req prev ex keep) st cbs) = error st"
  "isLoading (foldl (runCallback opts req prev ex keep) st cbs) = isLoading st"
  "abortController (foldl (runCallback opts req prev ex keep) st cbs) = abortController st"
  "cacheMaxSize (foldl (runCallback opts req prev ex keep) st cbs) = cacheMaxSize st"
  "requestsIssued (trace (foldl (runCallback opts req prev ex keep) st cbs)) = requestsIssued (trace st)"
  by (induction cbs arbitrary: st; simp)+

lemma callbacks_trace:
  "\<exists>more. trace (foldl (runCallback opts req prev ex keep) st cbs) = trace st @ more"
proof (induction cbs arbitrary: st)
  case Nil
  then show ?case by simp
next
  case (Cons cb cbs)
  obtain m1 where m1: "trace (runCallback opts req prev ex keep st cb) = trace st @ m1"
    using runCallback_trace by blast
  obtain m2 where "trace (foldl (runCallback opts req prev ex keep) (runCallback opts req prev ex keep st cb) cbs)
      = trace (runCallback opts req prev ex keep st cb) @ m2"
    using Cons.IH by blast
  then show ?case using m1 by simp
qed

lemma processStreamedResponse_fields [simp]:
  "error (fst (processStreamedResponse opts req run prev keep st)) = error st"
  "isLoading (fst (processStreamedResponse opts req run prev keep st)) = isLoading st"
  "abortController (fst (processStreamedResponse opts req run prev keep st)) = abortController st"
  "cacheMaxSize (fst (processStreamedResponse opts req run prev keep st)) = cacheMaxSize st"
  "snd (processStreamedResponse opts req run prev keep st) = snd run"
  "requestsIssued (trace (fst (processStreamedResponse opts req run prev keep st)))
     = requestsIssued (trace st) @ [deref st req]"
  by (simp_all add: processStreamedResponse_def Let_def)

lemma processStreamedResponse_trace:
  "\<exists>more. trace (fst (processStreamedResponse opts req run prev keep st))
     = trace st @ [Mutate (deref st req), CallChatApi (deref st req)] @ more"
proof -
  let ?st2 = "(mutate opts req st)\<lparr>trace := trace (mutate opts req st) @ [CallChatApi (deref st req)]\<rparr>"
  obtain more where "trace (foldl (runCallback opts req prev
       (case streamData (mutate opts req st) of Some d \<Rightarrow> d | None \<Rightarrow> []) keep) ?st2 (fst run))
     = trace ?st2 @ more"
    using callbacks_trace by blast
  then show ?thesis
    by (simp add: processStreamedResponse_def Let_def)
qed

lemma tryRequest_exit:
  "snd (tryRequest opts run req st) =
     (case snd run of
        NeverSettles \<Rightarrow> Some Pending
      | Returned v \<Rightarrow> None
      | Threw err \<Rightarrow>
          if err_name err = ''AbortError'' then Some (Resolved JNull)
          else (case (if instanceofError err then onError opts else None) of
                  None \<Rightarrow> None
                | Some handler \<Rightarrow> (case handler err of Some e \<Rightarrow> Some (Rejected e) | None \<Rightarrow> None)))"
  by (simp add: tryRequest_def Let_def split_beta split: settled.splits option.splits)

lemma tryRequest_requests [simp]:
  "requestsIssued (trace (fst (tryRequest opts run req st))) = requestsIssued (trace st) @ [deref st req]"
  by (simp add: tryRequest_def Let_def split_beta split: settled.splits option.splits)

lemma tryRequest_cacheMaxSize [simp]:
  "cacheMaxSize (fst (tryRequest opts run req st)) = cacheMaxSize st"
  by (simp add: tryRequest_def Let_def split_beta split: settled.splits option.splits)


lemma tryRequest_trace_start:
  "\<exists>more. trace (fst (tryRequest opts run req st))
     = trace st @ [SetError None, SetIsLoading True, Mutate (deref st req), CallChatApi (deref st req)] @ more"
proof -
  let ?st2 = "(setIsLoading True (setError None st))\<lparr>abortController := Some AbortController\<rparr>"
  obtain more where m: "trace (fst (processStreamedResponse opts req run (messagesRef ?st2)
        (keepLastMessageOnErrorOf opts) ?st2))
      = trace ?st2 @ [Mutate (deref ?st2 req), CallChatApi (deref ?st2 req)] @ more"
    using processStreamedResponse_trace by blast
  show ?thesis
    using m by (simp add: tryRequest_def Let_def split_beta split: settled.splits option.splits)
qed


lemma triggerRequest_fst:
  "fst (triggerRequest opts (run # runs) req st) =
     (let st' = fst (tryRequest opts run req st)
      in if snd (tryRequest opts run req st) = None \<and>
            autoSubmit opts (length (deref st (messagesRef st)))
              (extractMaxToolInvocationStep (lastToolInvocations (deref st req)))
              (deref st' (messagesRef st'))
         then fst (triggerRequest opts runs (messagesRef st') st')
         else st')"
  by (simp add: Let_def split_beta split: option.splits promise.splits)


declare triggerRequest.simps(2) [simp del]

lemma triggerRequest_fst_cases:
  "fst (triggerRequest opts (run # runs) req st) = fst (tryRequest opts run req st) \<or>
   fst (triggerRequest opts (run # runs) req st)
      = fst (triggerRequest opts runs (messagesRef (fst (tryRequest opts run req st)))
          (fst (tryRequest opts run req st)))"
  by (simp add: triggerRequest_fst Let_def)

lemma triggerRequest_trace_ext:
  "\<exists>more. trace (fst (triggerRequest opts runs req st)) = trace st @ more"
proof (induction runs arbitrary: req st)
  case Nil
  then show ?case using tryRequest_trace_start [of opts "([], NeverSettles)" req st] by auto
next
  case (Cons run runs)
  let ?st' = "fst (tryRequest opts run req st)"
  obtain m1 where m1: "trace ?st' = trace st @ m1"
    using tryRequest_trace_start [of opts run req st] by auto
  obtain m2 where m2: "trace (fst (triggerRequest opts runs (messagesRef ?st') ?st')) = trace ?st' @ m2"
    using Cons.IH by blast
  show ?case
    using triggerRequest_fst_cases [of opts run runs req st] m1 m2 by auto
qed

lemma triggerRequest_trace_start:
  "\<exists>more. trace (fst (triggerRequest opts runs req st))
     = trace st @ [SetError None, SetIsLoading True, Mutate (deref st req), CallChatApi (deref st req)]
         @ more"
proof (cases runs)
  case Nil
  then show ?thesis using tryRequest_trace_start [of opts "([], NeverSettles)" req st] by simp
next
  case (Cons run rest)
  let ?st' = "fst (tryRequest opts run req st)"
  obtain m1 where m1: "trace ?st'
     = trace st @ [SetError None, SetIsLoading True, Mutate (deref st req), CallChatApi (deref st req)]
         @ m1"
    using tryRequest_trace_start by blast
  obtain m2 where m2: "trace (fst (triggerRequest opts rest (messagesRef ?st') ?st'))
     = trace ?st' @ m2"
    using triggerRequest_trace_ext by blast
  show ?thesis
    unfolding Cons using triggerRequest_fst_cases [of opts run rest req st] m1 m2 by auto
qed




lemma triggerRequest_no_submit:
  "snd (tryRequest opts run req st) = None \<Longrightarrow>
   \<not> autoSubmit opts (length (deref st (messagesRef st)))
        (extractMaxToolInvocationStep (lastToolInvocations (deref st req)))
        (deref (fst (tryRequest opts run req st)) (messagesRef (fst (tryRequest opts run req st)))) \<Longrightarrow>
   triggerRequest opts (run # runs) req st = (fst (tryRequest opts run req st), Resolved JUndefined)"
  by (simp add: triggerRequest.simps(2) Let_def split_beta)


lemma triggerRequest_requests_start:
  "\<exists>more. requestsIssued (trace (fst (triggerRequest opts runs req st)))
     = requestsIssued (trace st) @ deref st req # more"
proof -
  obtain more where "trace (fst (triggerRequest opts runs req st))
     = trace st @ [SetError None, SetIsLoading True, Mutate (deref st req), CallChatApi (deref st req)]
         @ more"
    using triggerRequest_trace_start by blast
  then have "requestsIssued (trace (fst (triggerRequest opts runs req st)))
     = requestsIssued (trace st) @ deref st req # requestsIssued more"
    by simp
  then show ?thesis by blast
qed




lemma callbacks_messagesRef:
  "messagesRef st = messages_memo_ref opts st \<Longrightarrow> storeArray st = messages_memo opts st \<Longrightarrow>
   messagesRef (foldl (runCallback opts req prev ex keep) st cbs)
     = messages_memo_ref opts (foldl (runCallback opts req prev ex keep) st cbs) \<and>
   storeArray (foldl (runCallback opts req prev ex keep) st cbs)
     = messages_memo opts (foldl (runCallback opts req prev ex keep) st cbs)"
proof (induction cbs arbitrary: st)
  case Nil
  then show ?case by simp
next
  case (Cons cb cbs)
  have "messagesRef (runCallback opts req prev ex keep st cb)
      = messages_memo_ref opts (runCallback opts req prev ex keep st cb) \<and>
    storeArray (runCallback opts req prev ex keep st cb)
      = messages_memo opts (runCallback opts req prev ex keep st cb)"
    using Cons.prems by (cases cb) (simp_all add: Let_def split: option.splits)
  then show ?case using Cons.IH by simp
qed

lemma processStreamedResponse_synced:
  "messagesRef (fst (processStreamedResponse opts req run prev keep st))
     = messages_memo_ref opts (fst (processStreamedResponse opts req run prev keep st)) \<and>
   storeArray (fst (processStreamedResponse opts req run prev keep st))
     = messages_memo opts (fst (processStreamedResponse opts req run prev keep st))"
proof -
  let ?stc = "(mutate opts req st)\<lparr>trace := trace (mutate opts req st) @ [CallChatApi (deref (mutate opts req st) req)]\<rparr>"
  have a: "messagesRef ?stc = messages_memo_ref opts ?stc"
    by simp
  have b: "storeArray ?stc = messages_memo opts ?stc"
    by simp
  show ?thesis
    unfolding processStreamedResponse_def Let_def fst_conv
    by (rule callbacks_messagesRef [OF a b])
qed

lemma tryRequest_synced:
  "messagesRef (fst (tryRequest opts run req st))
     = messages_memo_ref opts (fst (tryRequest opts run req st)) \<and>
   storeArray (fst (tryRequest opts run req st))
     = messages_memo opts (fst (tryRequest opts run req st))"
proof -
  let ?st2 = "(setIsLoading True (setError None st))\<lparr>abortController := Some AbortController\<rparr>"
  let ?st3 = "fst (processStreamedResponse opts req run (messagesRef ?st2)
                 (keepLastMessageOnErrorOf opts) ?st2)"
  have s: "messagesRef ?st3 = messages_memo_ref opts ?st3" "storeArray ?st3 = messages_memo opts ?st3"
    using processStreamedResponse_synced [of opts req run "messagesRef ?st2"
        "keepLastMessageOnErrorOf opts" ?st2] by blast+
  have m: "storeArray ?st3 = deref ?st3 (messages_memo_ref opts ?st3)"
    using s(2) by (simp add: messages_memo_def)
  show ?thesis
    using s(1) m
    by (simp add: tryRequest_def Let_def split_beta messages_memo_def
        split: settled.splits option.splits)
qed

lemma tryRequest_messagesRef:
  "deref (fst (tryRequest opts run req st)) (messagesRef (fst (tryRequest opts run req st)))
     = messages_memo opts (fst (tryRequest opts run req st))"
  using tryRequest_synced [of opts run req st] by (simp add: messages_memo_def)

lemma useChat_fields [simp]:
  "cacheMaxSize (useChat opts b c) = b"
  "trace (useChat opts b c) = []"
  "error (useChat opts b c) = None"
  "isLoading (useChat opts b c) = False"
  "abortController (useChat opts b c) = None"
  "messagesRef (useChat opts b c) = StoreArray"
  "storeArray (useChat opts b []) = (case initialMessages opts of Some ms \<Rightarrow> ms | None \<Rightarrow> [])"
  by (simp_all add: useChat_def)

lemma chatKey_same:
  "apiOf optsA = apiOf optsB \<Longrightarrow> chatId optsA = chatId optsB \<Longrightarrow> chatKey optsA = chatKey optsB"
  by (simp add: chatKey_def)

lemma updatedMessages_length [simp]: "length (updatedMessages tc res arr) = length arr"
  by (simp add: updatedMessages_def)

lemma updatedMessages_nth:
  "i < length arr \<Longrightarrow>
   updatedMessages tc res arr ! i =
     (if i = length arr - 1 \<and> role (arr ! i) = Assistant \<and> toolInvocations (arr ! i) \<noteq> None
      then (arr ! i)\<lparr>toolInvocations :=
             map_option
               (map (\<lambda>toolInvocation.
                       if toolCallId toolInvocation = tc
                       then toolInvocation\<lparr>result := Some res, state := Result\<rparr>
                       else toolInvocation))
               (toolInvocations (arr ! i))\<rparr>
      else arr ! i)"
  by (simp add: updatedMessages_def)

lemma updatedMessages_earlier:
  "Suc i < length arr \<Longrightarrow> updatedMessages tc res arr ! i = arr ! i"
proof -
  assume a: "Suc i < length arr"
  then have "i < length arr" "i \<noteq> length arr - 1" by arith+
  then show ?thesis using updatedMessages_nth [of i arr tc res] by presburger
qed

lemma updatedMessages_empty [simp]: "(updatedMessages tc res arr = []) = (arr = [])"
  by (simp add: updatedMessages_def)

lemma updatedMessages_last:
  "arr \<noteq> [] \<Longrightarrow>
   last (updatedMessages tc res arr) =
     (case toolInvocations (last arr) of
        None \<Rightarrow> last arr
      | Some tis \<Rightarrow>
          if role (last arr) = Assistant
          then (last arr)\<lparr>toolInvocations :=
                 Some (map (\<lambda>t. if toolCallId t = tc
                                 then t\<lparr>result := Some res, state := Result\<rparr> else t) tis)\<rparr>
          else last arr)"
  by (simp add: last_conv_nth updatedMessages_nth split: option.splits)

lemma updatedMessages_no_match:
  assumes "\<And>tis. arr \<noteq> [] \<Longrightarrow> toolInvocations (last arr) = Some tis \<Longrightarrow>
             \<forall>t\<in>set tis. toolCallId t \<noteq> tc"
  shows "updatedMessages tc res arr = arr"
proof (rule nth_equalityI)
  show "length (updatedMessages tc res arr) = length arr" by simp
next
  fix i assume "i < length (updatedMessages tc res arr)"
  then have i: "i < length arr" by simp
  show "updatedMessages tc res arr ! i = arr ! i"
  proof (cases "i = length arr - 1 \<and> role (arr ! i) = Assistant \<and> toolInvocations (arr ! i) \<noteq> None")
    case False
    show ?thesis by (simp only: updatedMessages_nth [OF i] False if_False)
  next
    case True
    then obtain tis where tis: "toolInvocations (arr ! i) = Some tis" by auto
    have ne: "arr \<noteq> []" using i by auto
    have l: "arr ! i = last arr" using True ne by (simp add: last_conv_nth)
    have "\<forall>t\<in>set tis. toolCallId t \<noteq> tc" using assms [OF ne] tis l by simp
    then have "map (\<lambda>t. if toolCallId t = tc then t\<lparr>result := Some res, state := Result\<rparr> else t) tis = tis"
      by (induction tis) auto
    then show ?thesis using i True tis by (simp add: updatedMessages_nth)
  qed
qed

lemma addToolResult_trace:
  "\<exists>more. trace (fst (addToolResult opts runs tc res st))
     = trace st @ Mutate (updatedMessages tc res (messages_memo opts st)) # more"
proof -
  let ?upd = "updatedMessages tc res (messages_memo opts st)"
  obtain more where "trace (fst (triggerRequest opts runs (Array ?upd) (mutate opts (Array ?upd) st)))
     = trace (mutate opts (Array ?upd) st) @ more"
    using triggerRequest_trace_ext by blast
  then show ?thesis
    by (auto simp: addToolResult_def Let_def split: option.splits)
qed

lemma addToolResult_no_request:
  "lastMessageOf (updatedMessages tc res (messages_memo opts st)) = None \<or>
   \<not> isAssistantMessageWithCompletedToolCalls (last (updatedMessages tc res (messages_memo opts st)))
   \<Longrightarrow> fst (addToolResult opts runs tc res st)
       = mutate opts (Array (updatedMessages tc res (messages_memo opts st))) st"
  by (auto simp: addToolResult_def Let_def lastMessageOf_def split: option.splits if_splits)

lemma addToolResult_request:
  "updatedMessages tc res (messages_memo opts st) \<noteq> [] \<Longrightarrow>
   isAssistantMessageWithCompletedToolCalls (last (updatedMessages tc res (messages_memo opts st)))
   \<Longrightarrow> fst (addToolResult opts runs tc res st)
       = fst (triggerRequest opts runs (Array (updatedMessages tc res (messages_memo opts st)))
            (mutate opts (Array (updatedMessages tc res (messages_memo opts st))) st))"
  by (auto simp: addToolResult_def Let_def lastMessageOf_def split: option.splits if_splits)

lemma completed_iff:
  "isAssistantMessageWithCompletedToolCalls m =
     (role m = Assistant \<and>
      (\<exists>tis. toolInvocations m = Some tis \<and> tis \<noteq> [] \<and> (\<forall>t\<in>set tis. result t \<noteq> None)))"
  by (auto simp: isAssistantMessageWithCompletedToolCalls_def list_all_iff split: option.splits)

lemma mutate_requests [simp]:
  "requestsIssued (trace (mutate opts msgs st)) = requestsIssued (trace st)"
  by simp

lemma publishedBeforeCall_append:
  assumes "publishedBeforeCall xs" "publishedBeforeCall ys"
  shows "publishedBeforeCall (xs @ ys)"
  unfolding publishedBeforeCall_def
proof (intro allI impI, elim conjE)
  fix i ms
  assume i: "i < length (xs @ ys)" and c: "(xs @ ys) ! i = CallChatApi ms"
  show "0 < i \<and> (xs @ ys) ! (i - 1) = Mutate ms"
  proof (cases "i < length xs")
    case True
    then have "xs ! i = CallChatApi ms" using c by (simp add: nth_append)
    then have "0 < i \<and> xs ! (i - 1) = Mutate ms"
      using assms(1) True unfolding publishedBeforeCall_def by blast
    moreover have "i - 1 < length xs" using True by arith
    ultimately show ?thesis by (simp add: nth_append)
  next
    case False
    let ?j = "i - length xs"
    have j: "?j < length ys" using i False by simp
    have "ys ! ?j = CallChatApi ms" using c False by (simp add: nth_append)
    then have p: "0 < ?j \<and> ys ! (?j - 1) = Mutate ms"
      using assms(2) j unfolding publishedBeforeCall_def by blast
    then have "\<not> i - 1 < length xs" by arith
    moreover have "i - 1 - length xs = ?j - 1" by arith
    ultimately show ?thesis using p by (simp add: nth_append)
  qed
qed

lemma no_requests_no_call:
  "requestsIssued es = [] \<Longrightarrow> CallChatApi ms \<notin> set es"
  by (induction es rule: requestsIssued.induct) auto

lemma publishedBeforeCall_no_requests:
  "requestsIssued es = [] \<Longrightarrow> publishedBeforeCall es"
  unfolding publishedBeforeCall_def
proof (intro allI impI, elim conjE)
  fix i ms
  assume r: "requestsIssued es = []" and i: "i < length es" and c: "es ! i = CallChatApi ms"
  have "CallChatApi ms \<in> set es" using i c nth_mem [of i es] by simp
  then have False using no_requests_no_call [OF r, of ms] by simp
  then show "0 < i \<and> es ! (i - 1) = Mutate ms" ..
qed

lemma publishedBeforeCall_start:
  "publishedBeforeCall [SetError None, SetIsLoading True, Mutate req, CallChatApi req]"
  unfolding publishedBeforeCall_def
proof (intro allI impI, elim conjE)
  fix i ms
  assume i: "i < length [SetError None, SetIsLoading True, Mutate req, CallChatApi req]"
    and c: "[SetError None, SetIsLoading True, Mutate req, CallChatApi req] ! i = CallChatApi ms"
  have "i = 0 \<or> i = 1 \<or> i = 2 \<or> i = 3" using i by auto
  then have "i = 3" using c by auto
  then show "0 < i \<and> [SetError None, SetIsLoading True, Mutate req, CallChatApi req] ! (i - 1) = Mutate ms"
    using c by simp
qed

lemma tryRequest_published:
  "\<exists>blk. trace (fst (tryRequest opts run req st)) = trace st @ blk \<and> publishedBeforeCall blk"
proof -
  obtain more where m: "trace (fst (tryRequest opts run req st))
     = trace st @ [SetError None, SetIsLoading True, Mutate (deref st req), CallChatApi (deref st req)] @ more"
    using tryRequest_trace_start by blast
  have "requestsIssued (trace (fst (tryRequest opts run req st))) = requestsIssued (trace st) @ [deref st req]"
    by simp
  then have "requestsIssued more = []" unfolding m by simp
  then have "publishedBeforeCall more" by (rule publishedBeforeCall_no_requests)
  then have "publishedBeforeCall ([SetError None, SetIsLoading True, Mutate (deref st req), CallChatApi (deref st req)] @ more)"
    using publishedBeforeCall_start publishedBeforeCall_append by blast
  then show ?thesis using m by blast
qed

lemma triggerRequest_published:
  "\<exists>more. trace (fst (triggerRequest opts runs req st)) = trace st @ more \<and> publishedBeforeCall more"
proof (induction runs arbitrary: req st)
  case Nil
  then show ?case using tryRequest_published [of opts "([], NeverSettles)" req st] by simp
next
  case (Cons run runs)
  let ?st' = "fst (tryRequest opts run req st)"
  obtain b1 where b1: "trace ?st' = trace st @ b1" "publishedBeforeCall b1"
    using tryRequest_published by blast
  obtain b2 where b2: "trace (fst (triggerRequest opts runs (messagesRef ?st') ?st')) = trace ?st' @ b2"
      "publishedBeforeCall b2"
    using Cons.IH by blast
  have "publishedBeforeCall (b1 @ b2)" using b1 b2 by (simp add: publishedBeforeCall_append)
  moreover have "trace (fst (triggerRequest opts runs (messagesRef ?st') ?st')) = trace st @ b1 @ b2"
    using b1 b2 by simp
  ultimately have rec: "\<exists>more. trace (fst (triggerRequest opts runs (messagesRef ?st') ?st'))
      = trace st @ more \<and> publishedBeforeCall more"
    by blast
  have stop': "\<exists>more. trace ?st' = trace st @ more \<and> publishedBeforeCall more"
    using b1 by blast
  show ?case
    using triggerRequest_fst_cases [of opts run runs req st] stop' rec by auto
qed







subsection \<open>The continuation condition\<close>

text \<open>
  The condition of the continuation, in the words of the specification: after a request
  that has settled without error or abort, \<^verbatim>\<open>triggerRequest\<close> issues a continuation
  request, which carries the whole updated list, if and only if the list has a last
  message; the list is longer than it was when \<^verbatim>\<open>triggerRequest\<close> was entered, or the
  maximum tool invocation step of the last message differs from the one recorded for the
  request; \<^verbatim>\<open>maxSteps\<close>, 1 by default, is greater than 1; the last message is an assistant
  message with at least one tool invocation, all with a result; its content is empty; and
  its maximum step is less than \<^verbatim>\<open>maxSteps\<close>. Otherwise the request is the only one and
  the promise resolves.
\<close>

lemma autoSubmit_iff:
  "autoSubmit opts messageCount maxStep msgs =
     (msgs \<noteq> [] \<and>
      (length msgs > messageCount \<or>
         extractMaxToolInvocationStep (toolInvocations (last msgs)) \<noteq> maxStep) \<and>
      maxStepsOf opts > 1 \<and>
      role (last msgs) = Assistant \<and>
      (\<exists>tis. toolInvocations (last msgs) = Some tis \<and> tis \<noteq> [] \<and>
             (\<forall>t\<in>set tis. result t \<noteq> None)) \<and>
      content (last msgs) = [] \<and>
      int (case extractMaxToolInvocationStep (toolInvocations (last msgs)) of
             Some s \<Rightarrow> s | None \<Rightarrow> 0) < maxStepsOf opts)"
  unfolding autoSubmit_def lastMessageOf_def completed_iff by auto

lemma triggerRequest_continues:
  assumes "snd (tryRequest opts run req st) = None"
    and "autoSubmit opts (length (deref st (messagesRef st)))
           (extractMaxToolInvocationStep (lastToolInvocations (deref st req)))
           (messages_memo opts (fst (tryRequest opts run req st)))"
  shows "\<exists>more. requestsIssued (trace (fst (triggerRequest opts (run # runs) req st)))
           = requestsIssued (trace st)
               @ [deref st req, messages_memo opts (fst (tryRequest opts run req st))] @ more"
proof -
  let ?st' = "fst (tryRequest opts run req st)"
  have f: "fst (triggerRequest opts (run # runs) req st)
      = fst (triggerRequest opts runs (messagesRef ?st') ?st')"
    using assms by (simp add: triggerRequest_fst Let_def tryRequest_messagesRef)
  obtain more where "requestsIssued (trace (fst (triggerRequest opts runs (messagesRef ?st') ?st')))
      = requestsIssued (trace ?st') @ deref ?st' (messagesRef ?st') # more"
    using triggerRequest_requests_start by blast
  then have "requestsIssued (trace (fst (triggerRequest opts (run # runs) req st)))
           = requestsIssued (trace st) @ [deref st req, messages_memo opts ?st'] @ more"
    using f by (simp add: tryRequest_messagesRef)
  then show ?thesis by blast
qed

lemma triggerRequest_continue_iff:
  "snd run = Returned v \<longrightarrow>
   (let msgs = messages_memo opts (fst (tryRequest opts run req st));
        stepBefore = extractMaxToolInvocationStep (lastToolInvocations (deref st req));
        stepNow = extractMaxToolInvocationStep (toolInvocations (last msgs));
        continue =
          (msgs \<noteq> [] \<and>
           (length msgs > length (deref st (messagesRef st)) \<or> stepNow \<noteq> stepBefore) \<and>
           maxStepsOf opts > 1 \<and>
           role (last msgs) = Assistant \<and>
           (\<exists>tis. toolInvocations (last msgs) = Some tis \<and> tis \<noteq> [] \<and>
                  (\<forall>t\<in>set tis. result t \<noteq> None)) \<and>
           content (last msgs) = [] \<and>
           int (case stepNow of Some s \<Rightarrow> s | None \<Rightarrow> 0) < maxStepsOf opts)
    in (continue \<longrightarrow>
          (\<exists>more. requestsIssued (trace (fst (triggerRequest opts (run # runs) req st)))
             = requestsIssued (trace st) @ [deref st req, msgs] @ more)) \<and>
       (\<not> continue \<longrightarrow>
          triggerRequest opts (run # runs) req st
            = (fst (tryRequest opts run req st), Resolved JUndefined) \<and>
          requestsIssued (trace (fst (triggerRequest opts (run # runs) req st)))
            = requestsIssued (trace st) @ [deref st req]))"
proof
  assume r: "snd run = Returned v"
  let ?st' = "fst (tryRequest opts run req st)"
  have ex: "snd (tryRequest opts run req st) = None"
    using r by (simp add: tryRequest_exit)
  let ?A = "autoSubmit opts (length (deref st (messagesRef st)))
           (extractMaxToolInvocationStep (lastToolInvocations (deref st req)))
           (messages_memo opts ?st')"
  have yes: "\<exists>more. requestsIssued (trace (fst (triggerRequest opts (run # runs) req st)))
             = requestsIssued (trace st) @ [deref st req, messages_memo opts ?st'] @ more" if ?A
    using ex that by (rule triggerRequest_continues)
  have no: "triggerRequest opts (run # runs) req st = (?st', Resolved JUndefined) \<and>
          requestsIssued (trace (fst (triggerRequest opts (run # runs) req st)))
            = requestsIssued (trace st) @ [deref st req]" if "\<not> ?A"
    using triggerRequest_no_submit [OF ex, of runs] that by (simp add: tryRequest_messagesRef)
  show "let msgs = messages_memo opts (fst (tryRequest opts run req st));
        stepBefore = extractMaxToolInvocationStep (lastToolInvocations (deref st req));
        stepNow = extractMaxToolInvocationStep (toolInvocations (last msgs));
        continue =
          (msgs \<noteq> [] \<and>
           (length msgs > length (deref st (messagesRef st)) \<or> stepNow \<noteq> stepBefore) \<and>
           maxStepsOf opts > 1 \<and>
           role (last msgs) = Assistant \<and>
           (\<exists>tis. toolInvocations (last msgs) = Some tis \<and> tis \<noteq> [] \<and>
                  (\<forall>t\<in>set tis. result t \<noteq> None)) \<and>
           content (last msgs) = [] \<and>
           int (case stepNow of Some s \<Rightarrow> s | None \<Rightarrow> 0) < maxStepsOf opts)
    in (continue \<longrightarrow>
          (\<exists>more. requestsIssued (trace (fst (triggerRequest opts (run # runs) req st)))
             = requestsIssued (trace st) @ [deref st req, msgs] @ more)) \<and>
       (\<not> continue \<longrightarrow>
          triggerRequest opts (run # runs) req st
            = (fst (tryRequest opts run req st), Resolved JUndefined) \<and>
          requestsIssued (trace (fst (triggerRequest opts (run # runs) req st)))
            = requestsIssued (trace st) @ [deref st req])"
    unfolding Let_def autoSubmit_iff [symmetric] using yes no by blast
qed

section \<open>The loading flag\<close>



section \<open>Aborted requests\<close>




section \<open>Failed requests\<close>

text \<open>
  Claim C2. The code does not do what the claim says. \<^verbatim>\<open>processStreamedResponse\<close> keeps
  \<^verbatim>\<open>messagesRef\<close> as the snapshot to restore, line 135, and \<^verbatim>\<open>restoreMessagesOnFailure\<close>
  writes it back, line 181. On a controller whose list is still the one it was
  constructed with, that snapshot is the array wrapped by the store, which by then holds
  every list published since: from the initial list \<open>[U1]\<close>, \<^verbatim>\<open>append(U2)\<close> followed by a
  failure after a partial assistant message leaves \<open>[U1, U2, partial]\<close> with
  \<^verbatim>\<open>keepLastMessageOnError\<close> false, and the error in the error field. When the list has
  been written before, here by \<^verbatim>\<open>setMessages\<close>, the same call leaves \<open>[U1]\<close>. Moreover
  \<^verbatim>\<open>triggerRequest\<close> goes on to the continuation test after a failure: with \<^verbatim>\<open>maxSteps = 3\<close>
  and a partial message that is an assistant message without content whose tool call has
  its result, a second request is issued, which clears the error.
\<close>

theorem failure_restores_store_array:
  "messages_memo (exampleOptions [userMessage ''u1'' ''hi''] None (Some False))
     (fst (append (exampleOptions [userMessage ''u1'' ''hi''] None (Some False))
        [callChatApi [(assistantMessage ''a1'' ''par'' None, None, False)] (Failed networkError)]
        ''u2'' [] (newUserMessage ''more'')
        (useChat (exampleOptions [userMessage ''u1'' ''hi''] None (Some False)) 100 [])))
     = [userMessage ''u1'' ''hi'', userMessage ''u2'' ''more'', assistantMessage ''a1'' ''par'' None] \<and>
   error
     (fst (append (exampleOptions [userMessage ''u1'' ''hi''] None (Some False))
        [callChatApi [(assistantMessage ''a1'' ''par'' None, None, False)] (Failed networkError)]
        ''u2'' [] (newUserMessage ''more'')
        (useChat (exampleOptions [userMessage ''u1'' ''hi''] None (Some False)) 100 [])))
     = Some networkError \<and>
   snd (append (exampleOptions [userMessage ''u1'' ''hi''] None (Some False))
        [callChatApi [(assistantMessage ''a1'' ''par'' None, None, False)] (Failed networkError)]
        ''u2'' [] (newUserMessage ''more'')
        (useChat (exampleOptions [userMessage ''u1'' ''hi''] None (Some False)) 100 []))
     = Resolved JUndefined \<and>
   messages_memo (exampleOptions [] None (Some False))
     (fst (append (exampleOptions [] None (Some False))
        [callChatApi [(assistantMessage ''a1'' ''par'' None, None, False)] (Failed networkError)]
        ''u2'' [] (newUserMessage ''more'')
        (setMessages (exampleOptions [] None (Some False)) (Value [userMessage ''u1'' ''hi''])
           (useChat (exampleOptions [] None (Some False)) 100 []))))
     = [userMessage ''u1'' ''hi''] \<and>
   error
     (fst (append (exampleOptions [userMessage ''u1'' ''hi''] (Some 3) None)
        [callChatApi [(assistantMessage ''a1'' [] (Some [toolCall ''c'' 0 (Some ''ok'')]), None, False)]
           (Failed networkError),
         ([], Returned JUndefined)]
        ''u2'' [] (newUserMessage ''more'')
        (useChat (exampleOptions [userMessage ''u1'' ''hi''] (Some 3) None) 100 [])))
     = None \<and>
   requestsIssued (trace
     (fst (append (exampleOptions [userMessage ''u1'' ''hi''] (Some 3) None)
        [callChatApi [(assistantMessage ''a1'' [] (Some [toolCall ''c'' 0 (Some ''ok'')]), None, False)]
           (Failed networkError),
         ([], Returned JUndefined)]
        ''u2'' [] (newUserMessage ''more'')
        (useChat (exampleOptions [userMessage ''u1'' ''hi''] (Some 3) None) 100 []))))
     = [[userMessage ''u1'' ''hi'', userMessage ''u2'' ''more''],
        [userMessage ''u1'' ''hi'', userMessage ''u2'' ''more'',
         assistantMessage ''a1'' [] (Some [toolCall ''c'' 0 (Some ''ok'')])]]"
  by code_simp

section \<open>Reload\<close>

text \<open>
  Claim C7. On an empty history \<^verbatim>\<open>reload\<close> resolves to \<^verbatim>\<open>null\<close> and leaves the controller
  as it was, so that no request is made. On a history that ends with an assistant message
  the request it triggers carries the history without that message, and on a history that
  ends with any other message it carries the whole history. The history is what the array
  \<^verbatim>\<open>messagesRef\<close> holds.
\<close>

theorem reload_requests:
  "(deref st (messagesRef st) = [] \<longrightarrow> reload opts runs st = (st, Resolved JNull)) \<and>
   (deref st (messagesRef st) \<noteq> [] \<and> role (last (deref st (messagesRef st))) = Assistant \<longrightarrow>
      (\<exists>more. requestsIssued (trace (fst (reload opts runs st)))
         = requestsIssued (trace st) @ butlast (deref st (messagesRef st)) # more)) \<and>
   (deref st (messagesRef st) \<noteq> [] \<and> role (last (deref st (messagesRef st))) \<noteq> Assistant \<longrightarrow>
      (\<exists>more. requestsIssued (trace (fst (reload opts runs st)))
         = requestsIssued (trace st) @ deref st (messagesRef st) # more))"
  using triggerRequest_requests_start [of opts runs "Array (butlast (deref st (messagesRef st)))" st]
    triggerRequest_requests_start [of opts runs "messagesRef st" st]
  by (simp add: reload_def Let_def butlast_conv_take)

text \<open>
  The history \<open>[U1, A1]\<close> is sent as \<open>[U1]\<close>, the history \<open>[U1]\<close> is sent as it is, and
  the empty history gives \<^verbatim>\<open>null\<close>.
\<close>

theorem reload_requests_witness:
  "role (last (deref (useChat (exampleOptions
       [userMessage ''u1'' ''hi'', assistantMessage ''a1'' ''hello'' None] None None) 100 [])
     (messagesRef (useChat (exampleOptions
       [userMessage ''u1'' ''hi'', assistantMessage ''a1'' ''hello'' None] None None) 100 [])))) = Assistant \<and>
   (\<exists>more. requestsIssued (trace (fst (reload
       (exampleOptions [userMessage ''u1'' ''hi'', assistantMessage ''a1'' ''hello'' None] None None) []
       (useChat (exampleOptions
          [userMessage ''u1'' ''hi'', assistantMessage ''a1'' ''hello'' None] None None) 100 []))))
      = [userMessage ''u1'' ''hi''] # more) \<and>
   (\<exists>more. requestsIssued (trace (fst (reload (exampleOptions [userMessage ''u1'' ''hi''] None None) []
       (useChat (exampleOptions [userMessage ''u1'' ''hi''] None None) 100 []))))
      = [userMessage ''u1'' ''hi''] # more) \<and>
   reload (exampleOptions [] None None) [] (useChat (exampleOptions [] None None) 100 [])
      = (useChat (exampleOptions [] None None) 100 [], Resolved JNull)"
  using reload_requests [of "useChat (exampleOptions
          [userMessage ''u1'' ''hi'', assistantMessage ''a1'' ''hello'' None] None None) 100 []"
        "exampleOptions [userMessage ''u1'' ''hi'', assistantMessage ''a1'' ''hello'' None] None None" "[]"]
    reload_requests [of "useChat (exampleOptions [userMessage ''u1'' ''hi''] None None) 100 []"
        "exampleOptions [userMessage ''u1'' ''hi''] None None" "[]"]
    reload_requests [of "useChat (exampleOptions [] None None) 100 []"
        "exampleOptions [] None None" "[]"]
  by (simp add: exampleOptions_def userMessage_def assistantMessage_def)

section \<open>The value of the promise\<close>



section \<open>The shared cache\<close>

text \<open>
  Claim C4. Two controllers are constructed with the same endpoint address and the same
  chat id, so that they have the same key. After \<^verbatim>\<open>setMessages\<close> of one of them, the memo
  \<^verbatim>\<open>_messages\<close> of both reads the new list from the cache entry that the call has written,
  and so does the mirror of the other controller once its effects have run on the cache.
\<close>

theorem setMessages_shared:
  "apiOf optsA = apiOf optsB \<and> chatId optsA = chatId optsB \<longrightarrow>
     messages_memo optsA (setMessages optsA arg st)
       = (case arg of Value ms \<Rightarrow> ms | Updater f \<Rightarrow> f (deref st (messagesRef st))) \<and>
     messages_memo optsB (setMessages optsA arg st)
       = (case arg of Value ms \<Rightarrow> ms | Updater f \<Rightarrow> f (deref st (messagesRef st))) \<and>
     deref (setMessages optsA arg st) (messagesRef (setMessages optsA arg st))
       = (case arg of Value ms \<Rightarrow> ms | Updater f \<Rightarrow> f (deref st (messagesRef st))) \<and>
     deref (runEffects optsB (stB\<lparr>chatCache := chatCache (setMessages optsA arg st)\<rparr>))
       (messagesRef (runEffects optsB (stB\<lparr>chatCache := chatCache (setMessages optsA arg st)\<rparr>)))
       = (case arg of Value ms \<Rightarrow> ms | Updater f \<Rightarrow> f (deref st (messagesRef st)))"
proof (intro impI, elim conjE)
  assume a: "apiOf optsA = apiOf optsB" and i: "chatId optsA = chatId optsB"
  let ?new = "case arg of Value ms \<Rightarrow> ms | Updater f \<Rightarrow> f (deref st (messagesRef st))"
  have k: "chatKey optsB = chatKey optsA" using a i by (simp add: chatKey_def)
  have sm: "setMessages optsA arg st = (mutate optsA (Array ?new) st)\<lparr>messagesRef := Array ?new\<rparr>"
    by (simp add: setMessages_def Let_def)
  have rA: "messages_memo_ref optsA (setMessages optsA arg st) = Array ?new"
    unfolding sm by (simp add: mutate_def runEffects_def Let_def messages_memo_ref_def ReactiveLRU_get_set)
  have rB: "messages_memo_ref optsB (setMessages optsA arg st) = Array ?new"
    unfolding sm by (simp add: mutate_def runEffects_def Let_def messages_memo_ref_def ReactiveLRU_get_set k)
  have A: "messages_memo optsA (setMessages optsA arg st) = ?new"
    by (simp add: messages_memo_def rA)
  have B: "messages_memo optsB (setMessages optsA arg st) = ?new"
    by (simp add: messages_memo_def rB)
  have R: "deref (setMessages optsA arg st) (messagesRef (setMessages optsA arg st)) = ?new"
    unfolding sm by simp
  have "messages_memo_ref optsB (stB\<lparr>chatCache := chatCache (setMessages optsA arg st)\<rparr>) = Array ?new"
    unfolding sm
    by (simp add: mutate_def runEffects_def Let_def messages_memo_ref_def ReactiveLRU_get_set k)
  then have E: "deref (runEffects optsB (stB\<lparr>chatCache := chatCache (setMessages optsA arg st)\<rparr>))
       (messagesRef (runEffects optsB (stB\<lparr>chatCache := chatCache (setMessages optsA arg st)\<rparr>))) = ?new"
    by (simp add: runEffects_def Let_def)
  show "messages_memo optsA (setMessages optsA arg st)
       = (case arg of Value ms \<Rightarrow> ms | Updater f \<Rightarrow> f (deref st (messagesRef st))) \<and>
     messages_memo optsB (setMessages optsA arg st)
       = (case arg of Value ms \<Rightarrow> ms | Updater f \<Rightarrow> f (deref st (messagesRef st))) \<and>
     deref (setMessages optsA arg st) (messagesRef (setMessages optsA arg st))
       = (case arg of Value ms \<Rightarrow> ms | Updater f \<Rightarrow> f (deref st (messagesRef st))) \<and>
     deref (runEffects optsB (stB\<lparr>chatCache := chatCache (setMessages optsA arg st)\<rparr>))
       (messagesRef (runEffects optsB (stB\<lparr>chatCache := chatCache (setMessages optsA arg st)\<rparr>)))
       = (case arg of Value ms \<Rightarrow> ms | Updater f \<Rightarrow> f (deref st (messagesRef st)))"
    using A B R E by blast
qed

text \<open>
  The two controllers have different initial messages and different \<^verbatim>\<open>maxSteps\<close>; the
  cache holds an entry of another session.
\<close>

theorem setMessages_shared_witness:
  "messages_memo (exampleOptions [userMessage ''u1'' ''hi''] None None)
     (setMessages (exampleOptions [] (Some 3) None)
        (Updater (\<lambda>ms. ms @ [userMessage ''u2'' ''more'']))
        (useChat (exampleOptions [] (Some 3) None) 100 [(''other'', [])]))
     = [userMessage ''u2'' ''more''] \<and>
   messages_memo (exampleOptions [] (Some 3) None)
     (setMessages (exampleOptions [] (Some 3) None)
        (Updater (\<lambda>ms. ms @ [userMessage ''u2'' ''more'']))
        (useChat (exampleOptions [] (Some 3) None) 100 [(''other'', [])]))
     = [userMessage ''u2'' ''more'']"
  using setMessages_shared [of "exampleOptions [] (Some 3) None"
      "exampleOptions [userMessage ''u1'' ''hi''] None None"
      "Updater (\<lambda>ms. ms @ [userMessage ''u2'' ''more''])"
      "useChat (exampleOptions [] (Some 3) None) 100 [(''other'', [])]"]
  by (simp add: apiOf_def chatId_def exampleOptions_def useChat_def Let_def messages_memo_def
      ReactiveLRU_get_def chatKey_def)

section \<open>Tool results\<close>

text \<open>
  Claim C6. \<^verbatim>\<open>addToolResult\<close> first writes the list \<open>updatedMessages\<close> to the cache. That
  list has the length of the current list and the same messages before the last one. Its
  last message is changed only if it is an assistant message with tool invocations, and
  then every invocation with the given \<^verbatim>\<open>toolCallId\<close> has state \<^verbatim>\<open>result\<close> and the given
  result, the others being as they were. When no invocation of the last message has the
  given id, as when the id occurs in earlier messages only, the written list is the
  current list; and it is the list that the session holds afterwards whenever the last
  message does not have all its tool calls completed.
\<close>

theorem addToolResult_frame:
  "(let msgs = messages_memo opts st; upd = updatedMessages tc res msgs
    in (\<exists>more. trace (fst (addToolResult opts runs tc res st)) = trace st @ Mutate upd # more) \<and>
       length upd = length msgs \<and>
       (\<forall>i. Suc i < length msgs \<longrightarrow> upd ! i = msgs ! i) \<and>
       (msgs \<noteq> [] \<longrightarrow>
          last upd =
            (case toolInvocations (last msgs) of
               None \<Rightarrow> last msgs
             | Some tis \<Rightarrow>
                 if role (last msgs) = Assistant
                 then (last msgs)\<lparr>toolInvocations :=
                        Some (map (\<lambda>t. if toolCallId t = tc
                                        then t\<lparr>result := Some res, state := Result\<rparr> else t) tis)\<rparr>
                 else last msgs)) \<and>
       ((\<forall>tis. msgs \<noteq> [] \<and> toolInvocations (last msgs) = Some tis \<longrightarrow>
               (\<forall>t\<in>set tis. toolCallId t \<noteq> tc)) \<longrightarrow> upd = msgs) \<and>
       (upd = [] \<or> \<not> isAssistantMessageWithCompletedToolCalls (last upd) \<longrightarrow>
          messages_memo opts (fst (addToolResult opts runs tc res st)) = upd))"
proof -
  let ?msgs = "messages_memo opts st"
  let ?upd = "updatedMessages tc res ?msgs"
  have 1: "\<exists>more. trace (fst (addToolResult opts runs tc res st)) = trace st @ Mutate ?upd # more"
    by (rule addToolResult_trace)
  have 3: "\<forall>i. Suc i < length ?msgs \<longrightarrow> ?upd ! i = ?msgs ! i"
    by (simp add: updatedMessages_earlier)
  have 4: "?msgs \<noteq> [] \<longrightarrow>
          last ?upd =
            (case toolInvocations (last ?msgs) of
               None \<Rightarrow> last ?msgs
             | Some tis \<Rightarrow>
                 if role (last ?msgs) = Assistant
                 then (last ?msgs)\<lparr>toolInvocations :=
                        Some (map (\<lambda>t. if toolCallId t = tc
                                        then t\<lparr>result := Some res, state := Result\<rparr> else t) tis)\<rparr>
                 else last ?msgs)"
    using updatedMessages_last [of ?msgs tc res] by blast
  have 5: "(\<forall>tis. ?msgs \<noteq> [] \<and> toolInvocations (last ?msgs) = Some tis \<longrightarrow>
               (\<forall>t\<in>set tis. toolCallId t \<noteq> tc)) \<longrightarrow> ?upd = ?msgs"
    using updatedMessages_no_match [of ?msgs tc res] by blast
  have 6: "?upd = [] \<or> \<not> isAssistantMessageWithCompletedToolCalls (last ?upd) \<longrightarrow>
          messages_memo opts (fst (addToolResult opts runs tc res st)) = ?upd"
  proof (intro impI)
    assume n: "?upd = [] \<or> \<not> isAssistantMessageWithCompletedToolCalls (last ?upd)"
    have "fst (addToolResult opts runs tc res st) = mutate opts (Array ?upd) st"
      using n by (intro addToolResult_no_request) (auto simp: lastMessageOf_def)
    then show "messages_memo opts (fst (addToolResult opts runs tc res st)) = ?upd"
      by simp
  qed
  show ?thesis
    unfolding Let_def using 1 3 4 5 6 updatedMessages_length [of tc res ?msgs] by blast
qed

text \<open>
  The id \<open>c1\<close> is the id of a tool call of the first message, the last message has the
  pending tool call \<open>c2\<close>: the list stays as it is.
\<close>

theorem addToolResult_frame_witness:
  "messages_memo
     (exampleOptions [assistantMessage ''a0'' [] (Some [toolCall ''c1'' 0 None]),
                      assistantMessage ''a1'' [] (Some [toolCall ''c2'' 0 None])] None None)
     (fst (addToolResult
        (exampleOptions [assistantMessage ''a0'' [] (Some [toolCall ''c1'' 0 None]),
                         assistantMessage ''a1'' [] (Some [toolCall ''c2'' 0 None])] None None)
        [] ''c1'' ''sunny''
        (useChat (exampleOptions [assistantMessage ''a0'' [] (Some [toolCall ''c1'' 0 None]),
                                  assistantMessage ''a1'' [] (Some [toolCall ''c2'' 0 None])] None None)
           100 [])))
     = [assistantMessage ''a0'' [] (Some [toolCall ''c1'' 0 None]),
        assistantMessage ''a1'' [] (Some [toolCall ''c2'' 0 None])]"
proof -
  let ?init = "[assistantMessage ''a0'' [] (Some [toolCall ''c1'' 0 None]),
                assistantMessage ''a1'' [] (Some [toolCall ''c2'' 0 None])]"
  let ?opts = "exampleOptions ?init None None"
  have m: "messages_memo ?opts (useChat ?opts 100 []) = ?init"
    by (simp add: messages_memo_def messages_memo_ref_def ReactiveLRU_get_def exampleOptions_def useChat_def)
  have n: "\<forall>tis. ?init \<noteq> [] \<and> toolInvocations (last ?init) = Some tis \<longrightarrow>
             (\<forall>t\<in>set tis. toolCallId t \<noteq> ''c1'')"
    by (simp add: assistantMessage_def toolCall_def)
  have c: "\<not> isAssistantMessageWithCompletedToolCalls (last ?init)"
    by (simp add: assistantMessage_def toolCall_def isAssistantMessageWithCompletedToolCalls_def)
  show ?thesis
    using addToolResult_frame [of ?opts "useChat ?opts 100 []" "''c1''" "''sunny''" "[]"] n c
    unfolding Let_def m by simp
qed

text \<open>
  Claim C5, as amended. \<^verbatim>\<open>addToolResult\<close> triggers a request, and the request carries the
  updated list, if and only if after its write the list is not empty and its last message
  is an assistant message with at least one tool invocation, all with a result. Whether
  the call has changed anything does not matter: a call whose \<^verbatim>\<open>toolCallId\<close> matches no
  invocation of the last message writes the list as it was, and so triggers a request
  exactly when the tool calls of the last message were complete before.
\<close>

theorem addToolResult_requests:
  "(let upd = updatedMessages tc res (messages_memo opts st);
        completed = (upd \<noteq> [] \<and> role (last upd) = Assistant \<and>
           (\<exists>tis. toolInvocations (last upd) = Some tis \<and> tis \<noteq> [] \<and>
                  (\<forall>t\<in>set tis. result t \<noteq> None)))
    in (completed \<longrightarrow>
          (\<exists>more. requestsIssued (trace (fst (addToolResult opts runs tc res st)))
             = requestsIssued (trace st) @ upd # more)) \<and>
       (\<not> completed \<longrightarrow>
          requestsIssued (trace (fst (addToolResult opts runs tc res st)))
             = requestsIssued (trace st)) \<and>
       ((\<forall>tis. messages_memo opts st \<noteq> [] \<and>
                toolInvocations (last (messages_memo opts st)) = Some tis \<longrightarrow>
                (\<forall>t\<in>set tis. toolCallId t \<noteq> tc)) \<longrightarrow>
          upd = messages_memo opts st))"
proof -
  let ?upd = "updatedMessages tc res (messages_memo opts st)"
  let ?completed = "?upd \<noteq> [] \<and> role (last ?upd) = Assistant \<and>
           (\<exists>tis. toolInvocations (last ?upd) = Some tis \<and> tis \<noteq> [] \<and>
                  (\<forall>t\<in>set tis. result t \<noteq> None))"
  have c: "?completed = (?upd \<noteq> [] \<and> isAssistantMessageWithCompletedToolCalls (last ?upd))"
    by (simp only: completed_iff)
  have yes: "\<exists>more. requestsIssued (trace (fst (addToolResult opts runs tc res st)))
             = requestsIssued (trace st) @ ?upd # more" if "?completed"
  proof -
    have "fst (addToolResult opts runs tc res st)
       = fst (triggerRequest opts runs (Array ?upd) (mutate opts (Array ?upd) st))"
      using that c by (intro addToolResult_request) blast+
    then show ?thesis
      using triggerRequest_requests_start [of opts runs "Array ?upd" "mutate opts (Array ?upd) st"] by simp
  qed
  have no: "requestsIssued (trace (fst (addToolResult opts runs tc res st)))
             = requestsIssued (trace st)" if "\<not> ?completed"
  proof -
    have n: "?upd = [] \<or> \<not> isAssistantMessageWithCompletedToolCalls (last ?upd)"
      using that c by blast
    have "lastMessageOf ?upd = None \<or> \<not> isAssistantMessageWithCompletedToolCalls (last ?upd)"
    proof (cases "?upd = []")
      case True
      then show ?thesis by (simp add: lastMessageOf_def)
    next
      case False
      then show ?thesis using n by blast
    qed
    then have "fst (addToolResult opts runs tc res st) = mutate opts (Array ?upd) st"
      by (rule addToolResult_no_request)
    then show ?thesis by simp
  qed
  have same: "(\<forall>tis. messages_memo opts st \<noteq> [] \<and>
                toolInvocations (last (messages_memo opts st)) = Some tis \<longrightarrow>
                (\<forall>t\<in>set tis. toolCallId t \<noteq> tc)) \<longrightarrow>
          ?upd = messages_memo opts st"
    using updatedMessages_no_match [of "messages_memo opts st" tc res] by blast
  show ?thesis unfolding Let_def using yes no same by blast
qed

text \<open>
  The last message has the completed call \<open>c1\<close> and the pending call \<open>c2\<close>: a result for
  \<open>c2\<close> triggers a request with the updated list, a result for \<open>c1\<close> triggers none.
\<close>

theorem addToolResult_requests_witness:
  "(\<exists>more. requestsIssued (trace (fst (addToolResult
       (exampleOptions [userMessage ''u1'' ''hi'',
          assistantMessage ''a1'' [] (Some [toolCall ''c1'' 0 (Some ''ok''), toolCall ''c2'' 0 None])] None None)
       [] ''c2'' ''sunny''
       (useChat (exampleOptions [userMessage ''u1'' ''hi'',
          assistantMessage ''a1'' [] (Some [toolCall ''c1'' 0 (Some ''ok''), toolCall ''c2'' 0 None])] None None)
          100 []))))
     = [userMessage ''u1'' ''hi'',
        assistantMessage ''a1'' [] (Some [toolCall ''c1'' 0 (Some ''ok''), toolCall ''c2'' 0 (Some ''sunny'')])]
       # more) \<and>
   requestsIssued (trace (fst (addToolResult
       (exampleOptions [userMessage ''u1'' ''hi'',
          assistantMessage ''a1'' [] (Some [toolCall ''c1'' 0 (Some ''ok''), toolCall ''c2'' 0 None])] None None)
       [] ''c1'' ''sunny''
       (useChat (exampleOptions [userMessage ''u1'' ''hi'',
          assistantMessage ''a1'' [] (Some [toolCall ''c1'' 0 (Some ''ok''), toolCall ''c2'' 0 None])] None None)
          100 [])))) = []"
proof -
  let ?init = "[userMessage ''u1'' ''hi'',
          assistantMessage ''a1'' [] (Some [toolCall ''c1'' 0 (Some ''ok''), toolCall ''c2'' 0 None])]"
  let ?opts = "exampleOptions ?init None None"
  have m: "messages_memo ?opts (useChat ?opts 100 []) = ?init"
    by (simp add: messages_memo_def messages_memo_ref_def ReactiveLRU_get_def exampleOptions_def useChat_def)
  have u2: "updatedMessages ''c2'' ''sunny'' ?init = [userMessage ''u1'' ''hi'',
        assistantMessage ''a1'' [] (Some [toolCall ''c1'' 0 (Some ''ok''), toolCall ''c2'' 0 (Some ''sunny'')])]"
    by (simp add: updatedMessages_def userMessage_def assistantMessage_def toolCall_def)
  have u1: "updatedMessages ''c1'' ''sunny'' ?init = [userMessage ''u1'' ''hi'',
        assistantMessage ''a1'' [] (Some [toolCall ''c1'' 0 (Some ''sunny''), toolCall ''c2'' 0 None])]"
    by (simp add: updatedMessages_def userMessage_def assistantMessage_def toolCall_def)
  show ?thesis
    using addToolResult_requests [of "''c2''" "''sunny''" ?opts "useChat ?opts 100 []" "[]"]
      addToolResult_requests [of "''c1''" "''sunny''" ?opts "useChat ?opts 100 []" "[]"]
    unfolding Let_def m u1 u2
    by (simp add: assistantMessage_def toolCall_def)
qed

text \<open>
  The claim as stated fails: the only tool call of the last message, \<open>c1\<close>, has its
  result, and \<^verbatim>\<open>addToolResult\<close> is called with the id \<open>zz\<close>. The list that is written is the
  list as it was, and a request is issued.
\<close>

theorem addToolResult_unmatched_counterexample:
  "toolCallId (toolCall ''c1'' 0 (Some ''ok'')) \<noteq> ''zz'' \<and>
   updatedMessages ''zz'' ''sunny''
       [userMessage ''u1'' ''hi'', assistantMessage ''a1'' [] (Some [toolCall ''c1'' 0 (Some ''ok'')])]
     = [userMessage ''u1'' ''hi'', assistantMessage ''a1'' [] (Some [toolCall ''c1'' 0 (Some ''ok'')])] \<and>
   requestsIssued (trace (useChat (exampleOptions [userMessage ''u1'' ''hi'',
          assistantMessage ''a1'' [] (Some [toolCall ''c1'' 0 (Some ''ok'')])] None None) 100 [])) = [] \<and>
   requestsIssued (trace (fst (addToolResult
       (exampleOptions [userMessage ''u1'' ''hi'',
          assistantMessage ''a1'' [] (Some [toolCall ''c1'' 0 (Some ''ok'')])] None None)
       [] ''zz'' ''sunny''
       (useChat (exampleOptions [userMessage ''u1'' ''hi'',
          assistantMessage ''a1'' [] (Some [toolCall ''c1'' 0 (Some ''ok'')])] None None) 100 []))))
     = [[userMessage ''u1'' ''hi'', assistantMessage ''a1'' [] (Some [toolCall ''c1'' 0 (Some ''ok'')])]]"
  by code_simp
section \<open>The optimistic update\<close>

text \<open>
  Claim C9. \<^verbatim>\<open>processStreamedResponse\<close> writes the array of the request to the cache and
  only then calls \<^verbatim>\<open>callChatApi\<close>: whatever the call does, it does from a state in which
  the write and the call are the two latest effects and the list of the request is the
  current list of the session and of the mirror. Hence in the effects of
  \<^verbatim>\<open>triggerRequest\<close>, continuations included, every call of \<^verbatim>\<open>callChatApi\<close> comes right
  after the write of the list it sends.
\<close>

theorem optimistic_update_precedes_call:
  "(\<exists>stc. trace stc = trace st @ [Mutate (deref st req), CallChatApi (deref st req)] \<and>
          messages_memo opts stc = deref st req \<and>
          deref stc (messagesRef stc) = deref st req \<and>
          processStreamedResponse opts req run prev keep st
            = (foldl (runCallback opts req prev
                        (case streamData st of Some d \<Rightarrow> d | None \<Rightarrow> []) keep) stc (fst run),
               snd run)) \<and>
   (\<exists>more. trace (fst (triggerRequest opts runs req st)) = trace st @ more \<and>
      (\<forall>i ms. i < length more \<and> more ! i = CallChatApi ms \<longrightarrow>
                0 < i \<and> more ! (i - 1) = Mutate ms))"
proof
  let ?stc = "(mutate opts req st)\<lparr>trace := trace (mutate opts req st) @ [CallChatApi (deref st req)]\<rparr>"
  show "\<exists>stc. trace stc = trace st @ [Mutate (deref st req), CallChatApi (deref st req)] \<and>
          messages_memo opts stc = deref st req \<and>
          deref stc (messagesRef stc) = deref st req \<and>
          processStreamedResponse opts req run prev keep st
            = (foldl (runCallback opts req prev
                        (case streamData st of Some d \<Rightarrow> d | None \<Rightarrow> []) keep) stc (fst run),
               snd run)"
  proof (intro exI [of _ ?stc] conjI)
    show "trace ?stc = trace st @ [Mutate (deref st req), CallChatApi (deref st req)]" by simp
    show "messages_memo opts ?stc = deref st req" by simp
    show "deref ?stc (messagesRef ?stc) = deref st req" by simp
    show "processStreamedResponse opts req run prev keep st
            = (foldl (runCallback opts req prev
                        (case streamData st of Some d \<Rightarrow> d | None \<Rightarrow> []) keep) ?stc (fst run),
               snd run)"
      by (simp add: processStreamedResponse_def Let_def)
  qed
next
  show "\<exists>more. trace (fst (triggerRequest opts runs req st)) = trace st @ more \<and>
      (\<forall>i ms. i < length more \<and> more ! i = CallChatApi ms \<longrightarrow>
                0 < i \<and> more ! (i - 1) = Mutate ms)"
    using triggerRequest_published [of opts runs req st] unfolding publishedBeforeCall_def .
qed

text \<open>
  In the effects of one request the call of \<^verbatim>\<open>callChatApi\<close> is the fourth, and it follows
  the write of \<open>[U1]\<close>.
\<close>

theorem optimistic_update_precedes_call_witness:
  "trace (fst (triggerRequest (exampleOptions [] None None) [([], Returned JUndefined)]
       (Array [userMessage ''u1'' ''hi'']) (useChat (exampleOptions [] None None) 100 []))) ! 3
     = CallChatApi [userMessage ''u1'' ''hi''] \<and>
   trace (fst (triggerRequest (exampleOptions [] None None) [([], Returned JUndefined)]
       (Array [userMessage ''u1'' ''hi'']) (useChat (exampleOptions [] None None) 100 []))) ! (3 - 1)
     = Mutate [userMessage ''u1'' ''hi'']"
proof -
  let ?t = "trace (fst (triggerRequest (exampleOptions [] None None) [([], Returned JUndefined)]
       (Array [userMessage ''u1'' ''hi'']) (useChat (exampleOptions [] None None) 100 [])))"
  have c: "?t ! 3 = CallChatApi [userMessage ''u1'' ''hi'']" by code_simp
  have l: "3 < length ?t" by code_simp
  obtain more where m: "?t = trace (useChat (exampleOptions [] None None) 100 []) @ more"
    and p: "\<forall>i ms. i < length more \<and> more ! i = CallChatApi ms \<longrightarrow>
                0 < i \<and> more ! (i - 1) = Mutate ms"
    using optimistic_update_precedes_call [of "useChat (exampleOptions [] None None) 100 []"
        "Array [userMessage ''u1'' ''hi'']" "exampleOptions [] None None" "([], Returned JUndefined)"
        "Array []" True "[([], Returned JUndefined)]"]
    by blast
  have "more = ?t" using m by simp
  then have "?t ! (3 - 1) = Mutate [userMessage ''u1'' ''hi'']"
    using p c l by blast
  then show ?thesis using c by blast
qed

section \<open>Automatic continuation\<close>

text \<open>
  Claim C1. The bound that the claim draws from this condition does not hold of the code.
  The documentation of \<^verbatim>\<open>maxSteps\<close>, lines 208 to 214, calls it the maximum number of
  sequential calls, the default 1 meaning a single call. The last test of the condition,
  line 341, compares the step of the last message, which counts from 0, with \<^verbatim>\<open>maxSteps\<close>,
  so that as many as \<^verbatim>\<open>maxSteps\<close> continuations follow the first request. With
  \<^verbatim>\<open>maxSteps = 3\<close> and a transport that in round 0, 1, 2, ... leaves an assistant message
  without content whose tool call of that step has its result, \<^verbatim>\<open>append\<close> issues four
  requests and then resolves, the transport having three more answers; with
  \<^verbatim>\<open>maxSteps = 2\<close> it issues three.
\<close>

theorem append_exceeds_maxSteps:
  "requestsIssued (trace (fst (append (exampleOptions [] (Some 3) None)
       (map resolvedRound [0..<7])
       ''u1'' [] (newUserMessage ''hi'') (useChat (exampleOptions [] (Some 3) None) 100 []))))
   = [[userMessage ''u1'' ''hi''],
      [userMessage ''u1'' ''hi'', assistantMessage ''a1'' [] (Some [toolCall ''c'' 0 (Some ''ok'')])],
      [userMessage ''u1'' ''hi'', assistantMessage ''a1'' [] (Some [toolCall ''c'' 1 (Some ''ok'')])],
      [userMessage ''u1'' ''hi'', assistantMessage ''a1'' [] (Some [toolCall ''c'' 2 (Some ''ok'')])]] \<and>
   snd (append (exampleOptions [] (Some 3) None)
       (map resolvedRound [0..<7])
       ''u1'' [] (newUserMessage ''hi'') (useChat (exampleOptions [] (Some 3) None) 100 []))
     = Resolved JUndefined \<and>
   length (requestsIssued (trace (fst (append (exampleOptions [] (Some 2) None)
       (map resolvedRound [0..<7])
       ''u1'' [] (newUserMessage ''hi'') (useChat (exampleOptions [] (Some 2) None) 100 []))))) = 3 \<and>
   snd (append (exampleOptions [] (Some 2) None)
       (map resolvedRound [0..<7])
       ''u1'' [] (newUserMessage ''hi'') (useChat (exampleOptions [] (Some 2) None) 100 []))
     = Resolved JUndefined"
  by code_simp

end
